theory Spec2Isabelle
  imports Main
begin

section \<open>The debounce controller of \<open>src/app.ts\<close>\<close>

text \<open>
  The function \<open>debounce(func, wait, options)\<close> keeps its state in the variables of one
  closure and talks to the host through \<open>setTimeout\<close>/\<open>clearTimeout\<close> (or
  \<open>requestAnimationFrame\<close>/\<open>cancelAnimationFrame\<close>) and \<open>Date.now()\<close>.
  The model passes that state explicitly. Clock readings and delays are integers
  (milliseconds); \<open>undefined\<close> is \<open>None\<close>. Every reading of \<open>Date.now()\<close> is an argument
  \<open>time\<close> of the operation that takes it.
\<close>

subsection \<open>Values handed to the constructor\<close>

text \<open>
  The constructor receives arbitrary JavaScript values: \<open>undefined\<close>, \<open>null\<close>, booleans,
  numbers (integers and \<open>NaN\<close> here), symbols, bigints and objects. An object may be
  callable (a function); it has properties, read as data; and unary plus on it runs its
  own \<open>valueOf\<close>/\<open>toString\<close>, code that is not part of this program, so the object
  carries what that conversion comes to: a number, \<open>NaN\<close>, or a thrown \<open>TypeError\<close> (an
  object without a prototype, or one whose methods return no primitive). Strings,
  numbers that are not integers, and properties with getters are outside this universe.
\<close>

datatype conversion = Throws | Gives "int option"

datatype 'f jsval =
    JUndefined
  | JNull
  | JBoolean bool
  | JNumber int
  | JNaN
  | JSymbol
  | JBigInt int
  | JObject "'f option" conversion "(string \<times> 'f jsval) list"

text \<open>
  A function without properties of its own, and an object literal with the given
  properties; unary plus turns both into \<open>NaN\<close>.
\<close>

abbreviation JFunction :: "'f \<Rightarrow> 'f jsval" where
  "JFunction f \<equiv> JObject (Some f) (Gives None) []"

abbreviation JLiteral :: "(string \<times> 'f jsval) list \<Rightarrow> 'f jsval" where
  "JLiteral kvs \<equiv> JObject None (Gives None) kvs"

text \<open>
  Both errors of the constructor are instances of \<open>TypeError\<close>: the one the source throws
  itself, with the message \<open>Expected a function\<close>, and the one unary plus throws on a
  value it cannot convert.
\<close>

datatype reason = Expected_a_function | Cannot_convert

datatype error = TypeError reason

text \<open>Unary plus: \<open>Inr None\<close> is \<open>NaN\<close>; on a symbol and on a bigint it throws.\<close>

fun ToNumber :: "'f jsval \<Rightarrow> error + int option" where
  "ToNumber JUndefined = Inr None"
| "ToNumber JNull = Inr (Some 0)"
| "ToNumber (JBoolean b) = Inr (Some (if b then 1 else 0))"
| "ToNumber (JNumber n) = Inr (Some n)"
| "ToNumber JNaN = Inr None"
| "ToNumber JSymbol = Inl (TypeError Cannot_convert)"
| "ToNumber (JBigInt n) = Inl (TypeError Cannot_convert)"
| "ToNumber (JObject f Throws kvs) = Inl (TypeError Cannot_convert)"
| "ToNumber (JObject f (Gives n) kvs) = Inr n"

text \<open>\<open>!!v\<close>.\<close>

fun ToBoolean :: "'f jsval \<Rightarrow> bool" where
  "ToBoolean JUndefined = False"
| "ToBoolean JNull = False"
| "ToBoolean (JBoolean b) = b"
| "ToBoolean (JNumber n) = (n \<noteq> 0)"
| "ToBoolean JNaN = False"
| "ToBoolean JSymbol = True"
| "ToBoolean (JBigInt n) = (n \<noteq> 0)"
| "ToBoolean (JObject f cv kvs) = True"

text \<open>
  \<open>+v || 0\<close>: \<open>NaN\<close> and \<open>0\<close> are falsy, so both give \<open>0\<close>; an error of the conversion
  passes through.
\<close>

definition number_or_zero :: "'f jsval \<Rightarrow> error + int" where
  "number_or_zero v =
     (case ToNumber v of
        Inl e \<Rightarrow> Inl e
      | Inr None \<Rightarrow> Inr 0
      | Inr (Some n) \<Rightarrow> Inr n)"

text \<open>\<open>typeof v === 'function'\<close>, giving the function when it is one.\<close>

fun callable :: "'f jsval \<Rightarrow> 'f option" where
  "callable (JObject f cv kvs) = f"
| "callable v = None"

text \<open>
  Modelled from the spec: \<open>isObject.js\<close> is imported by the source but is not among the
  source files. The spec says that "options object presence is checked before reading
  fields": the check holds of what has fields to read, an object or a function, and
  of no primitive value.
\<close>

fun isObject :: "'f jsval \<Rightarrow> bool" where
  "isObject (JObject f cv kvs) = True"
| "isObject v = False"

text \<open>\<open>key in v\<close> and \<open>v.key\<close>; a missing property reads as \<open>undefined\<close>.\<close>

fun has_property :: "string \<Rightarrow> 'f jsval \<Rightarrow> bool" where
  "has_property k (JObject f cv kvs) = (map_of kvs k \<noteq> None)"
| "has_property k v = False"

fun get_property :: "'f jsval \<Rightarrow> string \<Rightarrow> 'f jsval" where
  "get_property (JObject f cv kvs) k = (case map_of kvs k of None \<Rightarrow> JUndefined | Some v \<Rightarrow> v)"
| "get_property v k = JUndefined"

text \<open>\<open>v === 0\<close>.\<close>

fun is_zero :: "'f jsval \<Rightarrow> bool" where
  "is_zero (JNumber n) = (n = 0)"
| "is_zero v = False"

subsection \<open>The closure\<close>

text \<open>
  The variables that are fixed once the constructor has run. \<open>func\<close> takes the \<open>this\<close>
  value (or \<open>undefined\<close>) and the argument list.
\<close>

record ('c, 'a, 'r) controller =
  func :: "'c option \<Rightarrow> 'a list \<Rightarrow> 'r"
  wait :: int
  maxWait :: "int option"
  leading :: bool
  maxing :: bool
  trailing :: bool
  useRAF :: bool

text \<open>
  A callback the host has scheduled and neither run nor cancelled: its handle, the clock
  reading when it was scheduled, and how it was scheduled. The callback itself is always
  \<open>timerExpired\<close>. A delay of \<open>None\<close> is \<open>NaN\<close>.
\<close>

datatype sched = Timeout "int option" | Frame

record timer =
  handle :: nat
  set_at :: int
  kind :: sched

text \<open>
  The variables the operations assign, followed by what the host holds for this
  controller: the live callbacks, the next fresh handle, and the applications of \<open>func\<close>
  so far (clock reading, \<open>this\<close>, arguments) in order.
\<close>

record ('c, 'a, 'r) closure =
  lastArgs :: "'a list option"
  lastThis :: "'c option"
  result :: "'r option"
  timerId :: "nat option"
  lastCallTime :: "int option"
  lastInvokeTime :: int
  timers :: "timer list"
  nextHandle :: nat
  invoked :: "(int \<times> 'c option \<times> 'a list) list"

subsection \<open>The host's scheduling primitives\<close>

definition schedule ::
  "sched \<Rightarrow> int \<Rightarrow> ('c, 'a, 'r) closure \<Rightarrow> nat \<times> ('c, 'a, 'r) closure" where
  "schedule k time s =
     (nextHandle s,
      s\<lparr>timers := timers s @ [\<lparr>handle = nextHandle s, set_at = time, kind = k\<rparr>],
        nextHandle := Suc (nextHandle s)\<rparr>)"

text \<open>\<open>clearTimeout(id)\<close> and \<open>cancelAnimationFrame(id)\<close>; \<open>undefined\<close> cancels nothing.\<close>

definition unschedule :: "nat option \<Rightarrow> ('c, 'a, 'r) closure \<Rightarrow> ('c, 'a, 'r) closure" where
  "unschedule tid s =
     (case tid of
        None \<Rightarrow> s
      | Some h \<Rightarrow> s\<lparr>timers := filter (\<lambda>tm. handle tm \<noteq> h) (timers s)\<rparr>)"

subsection \<open>The constructor\<close>

definition initial :: "('c, 'a, 'r) closure" where
  "initial =
     \<lparr>lastArgs = None, lastThis = None, result = None, timerId = None,
      lastCallTime = None, lastInvokeTime = 0, timers = [], nextHandle = 0, invoked = []\<rparr>"

text \<open>
  \<open>hasRAF\<close> is \<open>typeof root.requestAnimationFrame === 'function'\<close>. \<open>!wait && wait !== 0\<close>
  is: \<open>wait\<close> is falsy and is not the number zero. The statements run in the source's
  order: the test of \<open>func\<close>, then \<open>+wait\<close>, then, for an options object, \<open>+options.maxWait\<close>
  when the property is there; the first that throws ends the construction.
\<close>

definition debounce ::
  "bool \<Rightarrow> ('c option \<Rightarrow> 'a list \<Rightarrow> 'r) jsval \<Rightarrow> ('c option \<Rightarrow> 'a list \<Rightarrow> 'r) jsval
     \<Rightarrow> ('c option \<Rightarrow> 'a list \<Rightarrow> 'r) jsval
     \<Rightarrow> error + (('c, 'a, 'r) controller \<times> ('c, 'a, 'r) closure)" where
  "debounce hasRAF fn wt opts =
     (let use_raf = (\<not> ToBoolean wt \<and> \<not> is_zero wt \<and> hasRAF) in
      case callable fn of
        None \<Rightarrow> Inl (TypeError Expected_a_function)
      | Some f \<Rightarrow>
          (case number_or_zero wt of
             Inl e \<Rightarrow> Inl e
           | Inr w \<Rightarrow>
               let c0 = \<lparr>func = f, wait = w, maxWait = None, leading = False, maxing = False,
                         trailing = True, useRAF = use_raf\<rparr>
               in if isObject opts
                  then let mx = has_property ''maxWait'' opts
                       in case (if mx
                                then (case number_or_zero (get_property opts ''maxWait'') of
                                        Inl e \<Rightarrow> Inl e
                                      | Inr m \<Rightarrow> Inr (Some (max m w)))
                                else Inr None) of
                            Inl e \<Rightarrow> Inl e
                          | Inr mw \<Rightarrow>
                              Inr (c0\<lparr>leading := ToBoolean (get_property opts ''leading''),
                                      maxing := mx,
                                      maxWait := mw,
                                      trailing := (if has_property ''trailing'' opts
                                                   then ToBoolean (get_property opts ''trailing'')
                                                   else True)\<rparr>,
                                   initial)
                  else Inr (c0, initial)))"


subsection \<open>The inner functions\<close>

text \<open>\<open>func.apply(thisArg, undefined)\<close> applies \<open>func\<close> to no arguments.\<close>

definition invokeFunc ::
  "('c, 'a, 'r) controller \<Rightarrow> ('c, 'a, 'r) closure \<Rightarrow> int \<Rightarrow> 'r option \<times> ('c, 'a, 'r) closure" where
  "invokeFunc c s time =
     (let args = (case lastArgs s of None \<Rightarrow> [] | Some as \<Rightarrow> as);
          thisArg = lastThis s;
          r = func c thisArg args
      in (Some r,
          s\<lparr>lastArgs := None, lastThis := None, lastInvokeTime := time, result := Some r,
            invoked := invoked s @ [(time, thisArg, args)]\<rparr>))"

text \<open>
  \<open>startTimer(timerExpired, wait)\<close>: with animation frames the handle in \<open>timerId\<close> is
  cancelled first; with timeouts nothing is cancelled. \<open>time\<close> is the host's clock.
\<close>

definition startTimer ::
  "('c, 'a, 'r) controller \<Rightarrow> ('c, 'a, 'r) closure \<Rightarrow> int \<Rightarrow> int option
     \<Rightarrow> nat \<times> ('c, 'a, 'r) closure" where
  "startTimer c s time delay =
     (if useRAF c then schedule Frame time (unschedule (timerId s) s)
      else schedule (Timeout delay) time s)"

definition cancelTimer ::
  "('c, 'a, 'r) controller \<Rightarrow> ('c, 'a, 'r) closure \<Rightarrow> nat \<Rightarrow> ('c, 'a, 'r) closure" where
  "cancelTimer c s tid = unschedule (Some tid) s"

definition leadingEdge ::
  "('c, 'a, 'r) controller \<Rightarrow> ('c, 'a, 'r) closure \<Rightarrow> int \<Rightarrow> 'r option \<times> ('c, 'a, 'r) closure" where
  "leadingEdge c s time =
     (let s1 = s\<lparr>lastInvokeTime := time\<rparr>;
          (h, s2) = startTimer c s1 time (Some (wait c));
          s3 = s2\<lparr>timerId := Some h\<rparr>
      in if leading c then invokeFunc c s3 time else (result s3, s3))"

text \<open>
  With \<open>lastCallTime\<close> or \<open>maxWait\<close> undefined the subtraction is \<open>NaN\<close>, and so is the
  result (\<open>None\<close>).
\<close>

definition remainingWait ::
  "('c, 'a, 'r) controller \<Rightarrow> ('c, 'a, 'r) closure \<Rightarrow> int \<Rightarrow> int option" where
  "remainingWait c s time =
     (case lastCallTime s of
        None \<Rightarrow> None
      | Some lc \<Rightarrow>
          let timeSinceLastCall = time - lc;
              timeSinceLastInvoke = time - lastInvokeTime s;
              timeWaiting = wait c - timeSinceLastCall
          in if maxing c
             then (case maxWait c of
                     None \<Rightarrow> None
                   | Some m \<Rightarrow> Some (min timeWaiting (m - timeSinceLastInvoke)))
             else Some timeWaiting)"

text \<open>A comparison with \<open>NaN\<close> is false.\<close>

definition shouldInvoke ::
  "('c, 'a, 'r) controller \<Rightarrow> ('c, 'a, 'r) closure \<Rightarrow> int \<Rightarrow> bool" where
  "shouldInvoke c s time =
     (case lastCallTime s of
        None \<Rightarrow> True
      | Some lc \<Rightarrow>
          let timeSinceLastCall = time - lc;
              timeSinceLastInvoke = time - lastInvokeTime s
          in timeSinceLastCall \<ge> wait c \<or> timeSinceLastCall < 0 \<or>
             (maxing c \<and> (case maxWait c of None \<Rightarrow> False | Some m \<Rightarrow> timeSinceLastInvoke \<ge> m)))"

definition trailingEdge ::
  "('c, 'a, 'r) controller \<Rightarrow> ('c, 'a, 'r) closure \<Rightarrow> int \<Rightarrow> 'r option \<times> ('c, 'a, 'r) closure" where
  "trailingEdge c s time =
     (let s1 = s\<lparr>timerId := None\<rparr>
      in if trailing c \<and> lastArgs s1 \<noteq> None then invokeFunc c s1 time
         else (result s1, s1\<lparr>lastArgs := None, lastThis := None\<rparr>))"

text \<open>The callback; the host ignores what it returns.\<close>

definition timerExpired ::
  "('c, 'a, 'r) controller \<Rightarrow> ('c, 'a, 'r) closure \<Rightarrow> int \<Rightarrow> ('c, 'a, 'r) closure" where
  "timerExpired c s time =
     (if shouldInvoke c s time then snd (trailingEdge c s time)
      else let (h, s1) = startTimer c s time (remainingWait c s time)
           in s1\<lparr>timerId := Some h\<rparr>)"

subsection \<open>The returned interface\<close>

definition cancel :: "('c, 'a, 'r) controller \<Rightarrow> ('c, 'a, 'r) closure \<Rightarrow> ('c, 'a, 'r) closure" where
  "cancel c s =
     (let s1 = (case timerId s of None \<Rightarrow> s | Some tid \<Rightarrow> cancelTimer c s tid)
      in s1\<lparr>lastInvokeTime := 0, lastArgs := None, lastCallTime := None, lastThis := None,
            timerId := None\<rparr>)"

definition flush ::
  "('c, 'a, 'r) controller \<Rightarrow> ('c, 'a, 'r) closure \<Rightarrow> int \<Rightarrow> 'r option \<times> ('c, 'a, 'r) closure" where
  "flush c s time = (if timerId s = None then (result s, s) else trailingEdge c s time)"

definition pending :: "('c, 'a, 'r) closure \<Rightarrow> bool" where
  "pending s = (timerId s \<noteq> None)"

text \<open>
  The wrapper. \<open>fall_through\<close> is the code after the \<open>if (isInvoking)\<close> block, which is
  reached when that block does not return.
\<close>

definition debounced ::
  "('c, 'a, 'r) controller \<Rightarrow> ('c, 'a, 'r) closure \<Rightarrow> int \<Rightarrow> 'c option \<Rightarrow> 'a list
     \<Rightarrow> 'r option \<times> ('c, 'a, 'r) closure" where
  "debounced c s time this args =
     (let isInvoking = shouldInvoke c s time;
          s1 = s\<lparr>lastArgs := Some args, lastThis := this, lastCallTime := Some time\<rparr>;
          fall_through =
            (if timerId s1 = None
             then let (h, s2) = startTimer c s1 time (Some (wait c))
                  in (result s2, s2\<lparr>timerId := Some h\<rparr>)
             else (result s1, s1))
      in if isInvoking
         then if timerId s1 = None then leadingEdge c s1 time
              else if maxing c
              then let (h, s2) = startTimer c s1 time (Some (wait c))
                   in invokeFunc c (s2\<lparr>timerId := Some h\<rparr>) time
              else fall_through
         else fall_through)"

subsection \<open>What can happen to a controller\<close>

text \<open>
  A call of the wrapper, the host running the callback of a live handle, \<open>cancel()\<close> and
  \<open>flush()\<close>, each with the clock reading it takes. The host runs a callback once: the
  handle is no longer live when \<open>timerExpired\<close> starts. A handle that is not live cannot
  fire.
\<close>

datatype ('c, 'a) event =
    Call int "'c option" "'a list"
  | Expire nat int
  | Cancel
  | Flush int

fun step ::
  "('c, 'a, 'r) controller \<Rightarrow> ('c, 'a, 'r) closure \<Rightarrow> ('c, 'a) event \<Rightarrow> ('c, 'a, 'r) closure" where
  "step c s (Call time this args) = snd (debounced c s time this args)"
| "step c s (Expire h time) =
     (if h \<in> handle ` set (timers s)
      then timerExpired c (unschedule (Some h) s) time
      else s)"
| "step c s Cancel = cancel c s"
| "step c s (Flush time) = snd (flush c s time)"

fun steps ::
  "('c, 'a, 'r) controller \<Rightarrow> ('c, 'a, 'r) closure \<Rightarrow> ('c, 'a) event list \<Rightarrow> ('c, 'a, 'r) closure" where
  "steps c s [] = s"
| "steps c s (e # es) = steps c (step c s e) es"

fun is_Call :: "('c, 'a) event \<Rightarrow> bool" where
  "is_Call (Call time this args) = True"
| "is_Call e = False"

fun clock :: "('c, 'a) event \<Rightarrow> int option" where
  "clock (Call time this args) = Some time"
| "clock (Expire h time) = Some time"
| "clock Cancel = None"
| "clock (Flush time) = Some time"

text \<open>
  The clock reading of the last application of \<open>func\<close>, if there has been one.
\<close>

definition lastExecution :: "('c, 'a, 'r) closure \<Rightarrow> int option" where
  "lastExecution s = (case invoked s of [] \<Rightarrow> None | x # xs \<Rightarrow> Some (fst (last (invoked s))))"

text \<open>
  A leading edge: the wrapper is called, \<open>shouldInvoke\<close> holds and no timer is scheduled.
\<close>

fun leading_edge ::
  "('c, 'a, 'r) controller \<Rightarrow> ('c, 'a, 'r) closure \<Rightarrow> ('c, 'a) event \<Rightarrow> bool" where
  "leading_edge c s (Call time this args) = (shouldInvoke c s time \<and> timerId s = None)"
| "leading_edge c s e = False"

subsection \<open>A host whose timers fire on time\<close>

text \<open>
  When a claim speaks of the time at which something fires, the host is taken to run
  every timeout exactly when it is due: at the clock reading of \<open>setTimeout\<close> plus the
  delay, a negative or \<open>NaN\<close> delay counting as zero. (A frame callback has no delay; it
  counts as due at once.) Of the live callbacks the one due first runs first, and
  a callback due at the time of a wrapper call runs before the call.
\<close>

definition due :: "timer \<Rightarrow> int" where
  "due tm =
     set_at tm + (case kind tm of Timeout (Some d) \<Rightarrow> max 0 d | Timeout None \<Rightarrow> 0 | Frame \<Rightarrow> 0)"

fun earliest :: "timer list \<Rightarrow> timer option" where
  "earliest [] = None"
| "earliest (tm # tms) =
     (case earliest tms of
        None \<Rightarrow> Some tm
      | Some tm' \<Rightarrow> if due tm \<le> due tm' then Some tm else Some tm')"

text \<open>
  Run the callbacks that are due up to \<open>lim\<close> (all of them when \<open>lim\<close> is \<open>None\<close>), each at
  its due time. A callback may schedule another, so the loop is bounded by fuel: \<open>None\<close>
  means that callbacks were still due when the fuel ran out.
\<close>

fun fire_until ::
  "nat \<Rightarrow> ('c, 'a, 'r) controller \<Rightarrow> int option \<Rightarrow> ('c, 'a, 'r) closure
     \<Rightarrow> ('c, 'a, 'r) closure option" where
  "fire_until n c lim s =
     (case earliest (timers s) of
        None \<Rightarrow> Some s
      | Some tm \<Rightarrow>
          if (case lim of None \<Rightarrow> True | Some t \<Rightarrow> due tm \<le> t)
          then (case n of
                  0 \<Rightarrow> None
                | Suc k \<Rightarrow> fire_until k c lim (step c s (Expire (handle tm) (due tm))))
          else Some s)"

text \<open>
  A run: the wrapper calls (clock reading, \<open>this\<close>, arguments) in order, the callbacks
  due before each call, and after the last call every callback until none is live.
\<close>

fun run ::
  "nat \<Rightarrow> ('c, 'a, 'r) controller \<Rightarrow> ('c, 'a, 'r) closure \<Rightarrow> (int \<times> 'c option \<times> 'a list) list
     \<Rightarrow> ('c, 'a, 'r) closure option" where
  "run n c s [] = fire_until n c None s"
| "run n c s ((t, this, args) # calls) =
     (case fire_until n c (Some t) s of
        None \<Rightarrow> None
      | Some s1 \<Rightarrow> run n c (step c s1 (Call t this args)) calls)"

text \<open>A burst for \<open>w\<close>: the clock does not go back, and each call is less than \<open>w\<close> after the one before.\<close>

fun burst :: "int \<Rightarrow> (int \<times> 'c option \<times> 'a list) list \<Rightarrow> bool" where
  "burst w [] = True"
| "burst w [x] = True"
| "burst w (x # y # ys) = (fst x \<le> fst y \<and> fst y - fst x < w \<and> burst w (y # ys))"

subsection \<open>Predicates used in the proofs\<close>

text \<open>Nothing is recorded and no timer is known to the controller.\<close>

definition quiet :: "('c, 'a, 'r) closure \<Rightarrow> bool" where
  "quiet s = (lastArgs s = None \<and> lastCallTime s = None \<and> timerId s = None)"

text \<open>The default options, with timeouts as timers.\<close>

definition plain :: "('c, 'a, 'r) controller \<Rightarrow> bool" where
  "plain c = (\<not> leading c \<and> trailing c \<and> \<not> maxing c \<and> \<not> useRAF c)"

text \<open>
  In the middle of a burst: the last call is recorded, nothing has run since the burst
  began, and the one live timeout, the one the controller knows, is due at \<open>D\<close>.
\<close>

definition armed ::
  "('c, 'a, 'r) closure \<Rightarrow> int \<Rightarrow> 'c option \<Rightarrow> 'a list \<Rightarrow> (int \<times> 'c option \<times> 'a list) list
     \<Rightarrow> int \<Rightarrow> bool" where
  "armed s t th as log D =
     (lastArgs s = Some as \<and> lastThis s = th \<and> lastCallTime s = Some t \<and> invoked s = log
      \<and> (\<exists>h sa d. timers s = [\<lparr>handle = h, set_at = sa, kind = Timeout (Some d)\<rparr>]
            \<and> timerId s = Some h \<and> 0 \<le> d \<and> sa + d = D))"

subsection \<open>Three controllers to compute with\<close>

text \<open>
  \<open>debounce(sum, 10)\<close>, \<open>debounce(sum, 10, {maxWait: 15})\<close> and
  \<open>debounce(sum, 10, {leading: true})\<close>, where \<open>sum\<close> adds up its arguments.
\<close>

definition sum_args :: "unit option \<Rightarrow> int list \<Rightarrow> int" where
  "sum_args this args = sum_list args"

definition ex_plain :: "(unit, int, int) controller" where
  "ex_plain = \<lparr>func = sum_args, wait = 10, maxWait = None, leading = False, maxing = False,
                trailing = True, useRAF = False\<rparr>"

definition ex_maxing :: "(unit, int, int) controller" where
  "ex_maxing = \<lparr>func = sum_args, wait = 10, maxWait = Some 15, leading = False, maxing = True,
                trailing = True, useRAF = False\<rparr>"

definition ex_leading :: "(unit, int, int) controller" where
  "ex_leading = \<lparr>func = sum_args, wait = 10, maxWait = None, leading = True, maxing = False,
                trailing = True, useRAF = False\<rparr>"

section \<open>Properties\<close>

declare fire_until.simps [simp del]

lemmas eval_defs = debounced_def leadingEdge_def trailingEdge_def invokeFunc_def startTimer_def
  schedule_def unschedule_def timerExpired_def cancel_def cancelTimer_def flush_def
  shouldInvoke_def remainingWait_def initial_def Let_def pending_def sum_args_def

subsection \<open>The three controllers are what the constructor builds\<close>

lemma ex_built:
  "debounce False (JFunction sum_args) (JNumber 10) JUndefined = Inr (ex_plain, initial)"
  "debounce False (JFunction sum_args) (JNumber 10) (JLiteral [(''maxWait'', JNumber 15)])
     = Inr (ex_maxing, initial)"
  "debounce False (JFunction sum_args) (JNumber 10) (JLiteral [(''leading'', JBoolean True)])
     = Inr (ex_leading, initial)"
  by (simp_all add: debounce_def number_or_zero_def ex_plain_def ex_maxing_def ex_leading_def
        Let_def)

subsection \<open>Each function, branch by branch\<close>

lemma trailingEdge_exec:
  "trailing c \<Longrightarrow> lastArgs s = Some as \<Longrightarrow>
   trailingEdge c s t =
     (Some (func c (lastThis s) as),
      s\<lparr>timerId := None, lastArgs := None, lastThis := None, lastInvokeTime := t,
        result := Some (func c (lastThis s) as),
        invoked := invoked s @ [(t, lastThis s, as)]\<rparr>)"
  by (simp add: trailingEdge_def invokeFunc_def Let_def)

lemma trailingEdge_skip:
  "\<not> trailing c \<or> lastArgs s = None \<Longrightarrow>
   trailingEdge c s t = (result s, s\<lparr>timerId := None, lastArgs := None, lastThis := None\<rparr>)"
  by (auto simp add: trailingEdge_def Let_def)

lemma startTimer_eq:
  "startTimer c s t d =
     (nextHandle s,
      s\<lparr>timers := (if useRAF c then timers (unschedule (timerId s) s) else timers s)
           @ [\<lparr>handle = nextHandle s, set_at = t,
               kind = (if useRAF c then Frame else Timeout d)\<rparr>],
        nextHandle := Suc (nextHandle s)\<rparr>)"
  by (cases "timerId s") (simp_all add: startTimer_def schedule_def unschedule_def)

lemma timerExpired_restart:
  "\<not> shouldInvoke c s t \<Longrightarrow>
   timerExpired c s t =
     s\<lparr>timers := (if useRAF c then timers (unschedule (timerId s) s) else timers s)
           @ [\<lparr>handle = nextHandle s, set_at = t,
               kind = (if useRAF c then Frame else Timeout (remainingWait c s t))\<rparr>],
       nextHandle := Suc (nextHandle s), timerId := Some (nextHandle s)\<rparr>"
  by (simp add: timerExpired_def startTimer_eq)

lemma timerExpired_invoke:
  "shouldInvoke c s t \<Longrightarrow> timerExpired c s t = snd (trailingEdge c s t)"
  by (simp add: timerExpired_def)

lemma not_shouldInvoke_lastCall:
  "\<not> shouldInvoke c s t \<Longrightarrow> \<exists>lc. lastCallTime s = Some lc"
  by (cases "lastCallTime s") (simp_all add: shouldInvoke_def)

lemma remainingWait_maxing:
  "lastCallTime s = Some lc \<Longrightarrow> maxing c \<Longrightarrow> maxWait c = Some m \<Longrightarrow>
   remainingWait c s t = Some (min (wait c - (t - lc)) (m - (t - lastInvokeTime s)))"
  by (simp add: remainingWait_def Let_def)

lemma remainingWait_plain:
  "lastCallTime s = Some lc \<Longrightarrow> \<not> maxing c \<Longrightarrow>
   remainingWait c s t = Some (wait c - (t - lc))"
  by (simp add: remainingWait_def Let_def)

lemma unschedule_timers:
  "timers (unschedule tid s) = filter (\<lambda>tm. Some (handle tm) \<noteq> tid) (timers s)"
  by (cases tid) (simp_all add: unschedule_def)

lemma debounced_tight_loop:
  "shouldInvoke c s t \<Longrightarrow> timerId s = Some h0 \<Longrightarrow> maxing c \<Longrightarrow>
   debounced c s t this args =
     (Some (func c this args),
      s\<lparr>lastCallTime := Some t,
        timers := (if useRAF c then filter (\<lambda>tm. Some (handle tm) \<noteq> timerId s) (timers s)
                   else timers s)
           @ [\<lparr>handle = nextHandle s, set_at = t,
               kind = (if useRAF c then Frame else Timeout (Some (wait c)))\<rparr>],
        nextHandle := Suc (nextHandle s), timerId := Some (nextHandle s),
        lastArgs := None, lastThis := None, lastInvokeTime := t,
        result := Some (func c this args),
        invoked := invoked s @ [(t, this, args)]\<rparr>)"
  by (simp add: debounced_def startTimer_eq invokeFunc_def unschedule_timers Let_def)

lemma cancel_eq:
  "cancel c s =
     s\<lparr>timers := filter (\<lambda>tm. Some (handle tm) \<noteq> timerId s) (timers s),
       lastInvokeTime := 0, lastArgs := None, lastCallTime := None, lastThis := None,
       timerId := None\<rparr>"
  by (cases "timerId s") (simp_all add: cancel_def cancelTimer_def unschedule_def)

lemma flush_idle: "timerId s = None \<Longrightarrow> flush c s t = (result s, s)"
  by (simp add: flush_def)

lemma flush_pending: "timerId s = Some h \<Longrightarrow> flush c s t = trailingEdge c s t"
  by (simp add: flush_def)

lemma shouldInvoke_first: "lastCallTime s = None \<Longrightarrow> shouldInvoke c s t"
  by (simp add: shouldInvoke_def)

lemma quiet_step:
  assumes "quiet s" and "\<not> is_Call e"
  shows "quiet (step c s e) \<and> invoked (step c s e) = invoked s \<and> result (step c s e) = result s"
proof (cases e)
  case (Call t th as)
  with assms show ?thesis by simp
next
  case (Expire h t)
  have "shouldInvoke c (unschedule (Some h) s) t"
    using assms(1) by (simp add: shouldInvoke_first quiet_def unschedule_def)
  moreover have "lastArgs (unschedule (Some h) s) = None"
    using assms(1) by (simp add: quiet_def unschedule_def)
  ultimately show ?thesis
    using assms(1) Expire
    by (simp add: timerExpired_invoke trailingEdge_skip quiet_def unschedule_def)
next
  case Cancel
  with assms show ?thesis by (simp add: cancel_eq quiet_def)
next
  case (Flush t)
  with assms show ?thesis by (simp add: flush_idle quiet_def)
qed

lemma quiet_steps:
  "quiet s \<Longrightarrow> \<forall>e\<in>set es. \<not> is_Call e \<Longrightarrow>
   invoked (steps c s es) = invoked s \<and> result (steps c s es) = result s"
proof (induction es arbitrary: s)
  case Nil
  then show ?case by simp
next
  case (Cons e es)
  from Cons.prems have q: "quiet (step c s e)" and i: "invoked (step c s e) = invoked s"
    and r: "result (step c s e) = result s"
    using quiet_step [where s = s and e = e and c = c] by simp_all
  from Cons.IH [OF q] Cons.prems(2) i r show ?case by simp
qed

lemma quiet_cancel: "quiet (cancel c s)"
  by (simp add: cancel_eq quiet_def)

lemma lit_trailingEdge:
  "lastInvokeTime (snd (trailingEdge c s t))
     = (if invoked (snd (trailingEdge c s t)) \<noteq> invoked s then t else lastInvokeTime s)"
  by (cases "trailing c \<and> lastArgs s \<noteq> None")
     (auto simp: trailingEdge_exec trailingEdge_skip)

lemma leadingEdge_eq:
  "leadingEdge c s t =
     (let s3 = s\<lparr>lastInvokeTime := t,
                 timers := (if useRAF c then timers (unschedule (timerId s) s) else timers s)
                   @ [\<lparr>handle = nextHandle s, set_at = t,
                       kind = (if useRAF c then Frame else Timeout (Some (wait c)))\<rparr>],
                 nextHandle := Suc (nextHandle s), timerId := Some (nextHandle s)\<rparr>
      in if leading c then invokeFunc c s3 t else (result s, s3))"
  by (simp add: leadingEdge_def startTimer_eq Let_def unschedule_def split: option.split)

lemma lit_invokeFunc: "lastInvokeTime (snd (invokeFunc c s t)) = t"
  by (simp add: invokeFunc_def Let_def)

lemma invoked_invokeFunc: "invoked (snd (invokeFunc c s t)) \<noteq> invoked s"
  by (simp add: invokeFunc_def Let_def)

lemma lit_leadingEdge: "lastInvokeTime (snd (leadingEdge c s t)) = t"
  by (simp add: leadingEdge_eq Let_def lit_invokeFunc)


lemma debounced_leading:
  "shouldInvoke c s t \<Longrightarrow> timerId s = None \<Longrightarrow>
   debounced c s t th as
     = leadingEdge c (s\<lparr>lastArgs := Some as, lastThis := th, lastCallTime := Some t\<rparr>) t"
  by (simp add: debounced_def Let_def)

lemma debounced_start:
  "\<not> shouldInvoke c s t \<Longrightarrow> timerId s = None \<Longrightarrow>
   debounced c s t th as =
     (result s,
      s\<lparr>lastArgs := Some as, lastThis := th, lastCallTime := Some t,
        timers := timers s
           @ [\<lparr>handle = nextHandle s, set_at = t,
               kind = (if useRAF c then Frame else Timeout (Some (wait c)))\<rparr>],
        nextHandle := Suc (nextHandle s), timerId := Some (nextHandle s)\<rparr>)"
  by (simp add: debounced_def startTimer_eq unschedule_def Let_def)

lemma debounced_record:
  "timerId s = Some h \<Longrightarrow> \<not> (shouldInvoke c s t \<and> maxing c) \<Longrightarrow>
   debounced c s t th as
     = (result s, s\<lparr>lastArgs := Some as, lastThis := th, lastCallTime := Some t\<rparr>)"
  by (auto simp add: debounced_def Let_def)

lemma lit_debounced:
  "lastInvokeTime (snd (debounced c s t th as))
     = (if invoked (snd (debounced c s t th as)) \<noteq> invoked s
           \<or> (shouldInvoke c s t \<and> timerId s = None)
        then t else lastInvokeTime s)"
proof (cases "timerId s")
  case None
  show ?thesis
  proof (cases "shouldInvoke c s t")
    case True
    with None show ?thesis by (simp add: debounced_leading lit_leadingEdge)
  next
    case False
    with None show ?thesis by (simp add: debounced_start)
  qed
next
  case (Some h)
  show ?thesis
  proof (cases "shouldInvoke c s t \<and> maxing c")
    case True
    with Some show ?thesis by (simp add: debounced_tight_loop)
  next
    case False
    with Some show ?thesis by (simp add: debounced_record)
  qed
qed


lemma lit_timerExpired:
  "lastInvokeTime (timerExpired c s t)
     = (if invoked (timerExpired c s t) \<noteq> invoked s then t else lastInvokeTime s)"
  by (cases "shouldInvoke c s t")
     (simp_all add: timerExpired_invoke timerExpired_restart lit_trailingEdge)

lemma lit_flush:
  "lastInvokeTime (snd (flush c s t))
     = (if invoked (snd (flush c s t)) \<noteq> invoked s then t else lastInvokeTime s)"
  by (cases "timerId s") (simp_all add: flush_idle flush_pending lit_trailingEdge)

lemma lit_step:
  "clock e = Some t \<Longrightarrow>
   lastInvokeTime (step c s e)
     = (if invoked (step c s e) \<noteq> invoked s \<or> leading_edge c s e then t
        else lastInvokeTime s)"
proof (cases e)
  case (Call t' th as)
  assume "clock e = Some t"
  with Call show ?thesis by (simp add: lit_debounced)
next
  case (Expire h t')
  assume "clock e = Some t"
  with Expire show ?thesis
    using lit_timerExpired [of c "unschedule (Some h) s" t]
    by (simp add: unschedule_def)
next
  case Cancel
  assume "clock e = Some t"
  with Cancel show ?thesis by simp
next
  case (Flush t')
  assume "clock e = Some t"
  with Flush show ?thesis by (simp add: lit_flush)
qed













subsection \<open>A burst on a host whose timers fire on time\<close>

lemma fire_none: "earliest (timers s) = None \<Longrightarrow> fire_until n c lim s = Some s"
  by (subst fire_until.simps) simp

lemma fire_later:
  "earliest (timers s) = Some tm \<Longrightarrow> t < due tm \<Longrightarrow> fire_until n c (Some t) s = Some s"
  by (subst fire_until.simps) simp

lemma fire_now:
  "earliest (timers s) = Some tm \<Longrightarrow> (case lim of None \<Rightarrow> True | Some t \<Rightarrow> due tm \<le> t) \<Longrightarrow>
   fire_until (Suc k) c lim s = fire_until k c lim (step c s (Expire (handle tm) (due tm)))"
  by (subst fire_until.simps) simp

lemma armed_first:
  assumes "plain c" and "0 \<le> wait c" and "timerId s = None" and "timers s = []"
  shows "armed (step c s (Call t th as)) t th as (invoked s) (t + wait c)"
proof (cases "shouldInvoke c s t")
  case True
  with assms show ?thesis
    by (simp add: debounced_leading leadingEdge_eq plain_def armed_def)
next
  case False
  with assms show ?thesis
    by (simp add: debounced_start plain_def armed_def)
qed

lemma armed_shouldInvoke:
  assumes "armed s t th as log D" and "plain c"
  shows "shouldInvoke c s t' \<longleftrightarrow> t' - t \<ge> wait c \<or> t' < t"
  using assms by (simp add: shouldInvoke_def armed_def plain_def)

lemma armed_next:
  assumes a: "armed s t th as log D" and p: "plain c"
    and "t \<le> t'" and "t' - t < wait c"
  shows "armed (step c s (Call t' th' as')) t' th' as' log D"
proof -
  from a obtain h where h: "timerId s = Some h" by (auto simp: armed_def)
  have "\<not> shouldInvoke c s t'"
    using armed_shouldInvoke [OF a p, of t'] assms(3,4) by simp
  then have "debounced c s t' th' as'
     = (result s, s\<lparr>lastArgs := Some as', lastThis := th', lastCallTime := Some t'\<rparr>)"
    using debounced_record [OF h] by simp
  with a show ?thesis by (simp add: armed_def)
qed

lemma armed_earliest:
  assumes "armed s t th as log D"
  shows "\<exists>tm. earliest (timers s) = Some tm \<and> due tm = D \<and> timers s = [tm]
            \<and> timerId s = Some (handle tm)"
  using assms by (auto simp: armed_def due_def)

lemma armed_restart:
  assumes a: "armed s t th as log D" and p: "plain c"
    and tm: "timers s = [tm]" and "t \<le> D" and "D < t + wait c"
  shows "armed (step c s (Expire (handle tm) D)) t th as log (t + wait c)"
proof -
  let ?s = "unschedule (Some (handle tm)) s"
  have st: "step c s (Expire (handle tm) D) = timerExpired c ?s D"
    using tm by simp
  have a': "lastArgs ?s = Some as" "lastThis ?s = th" "lastCallTime ?s = Some t"
    "invoked ?s = log" "timers ?s = []"
    using a tm by (simp_all add: armed_def unschedule_def)
  have ninv: "\<not> shouldInvoke c ?s D"
    using a' p assms(4,5) by (simp add: shouldInvoke_def plain_def)
  have rw: "remainingWait c ?s D = Some (wait c - (D - t))"
    using a' p by (simp add: remainingWait_plain plain_def)
  show ?thesis
    unfolding st using a' p assms(4,5)
    by (simp add: timerExpired_restart [OF ninv] rw armed_def plain_def)
qed

lemma armed_settle:
  assumes a: "armed s t th as log (t + wait c)" and p: "plain c"
    and tm: "timers s = [tm]" and w: "0 \<le> wait c"
  shows "timers (step c s (Expire (handle tm) (t + wait c))) = []
       \<and> timerId (step c s (Expire (handle tm) (t + wait c))) = None
       \<and> invoked (step c s (Expire (handle tm) (t + wait c))) = log @ [(t + wait c, th, as)]"
proof -
  let ?s = "unschedule (Some (handle tm)) s"
  have st: "step c s (Expire (handle tm) (t + wait c)) = timerExpired c ?s (t + wait c)"
    using tm by simp
  have a': "lastArgs ?s = Some as" "lastThis ?s = th" "lastCallTime ?s = Some t"
    "invoked ?s = log" "timers ?s = []"
    using a tm by (simp_all add: armed_def unschedule_def)
  have inv: "shouldInvoke c ?s (t + wait c)"
    using a' p w by (simp add: shouldInvoke_def plain_def)
  have tr: "trailing c" using p by (simp add: plain_def)
  show ?thesis
    unfolding st using a'
    by (simp add: timerExpired_invoke [OF inv] trailingEdge_exec [OF tr a'(1)])
qed

lemma fire_armed_before:
  assumes a: "armed s t th as log D" and p: "plain c"
    and "t \<le> D" and "D \<le> t + wait c" and "t \<le> t'" and "t' - t < wait c"
  shows "\<exists>s1 D1. fire_until (Suc k) c (Some t') s = Some s1 \<and> armed s1 t th as log D1
            \<and> t' < D1 \<and> D1 \<le> t + wait c"
proof -
  from armed_earliest [OF a] obtain tm where tm: "earliest (timers s) = Some tm"
    "due tm = D" "timers s = [tm]" by blast
  show ?thesis
  proof (cases "D \<le> t'")
    case False
    then have "fire_until (Suc k) c (Some t') s = Some s"
      using fire_later [OF tm(1), of t'] tm(2) by simp
    with a False assms(4) show ?thesis by auto
  next
    case True
    let ?s1 = "step c s (Expire (handle tm) D)"
    have lt: "D < t + wait c" using True assms(6) by simp
    have a1: "armed ?s1 t th as log (t + wait c)"
      by (rule armed_restart [OF a p tm(3) assms(3) lt])
    from armed_earliest [OF a1] obtain tm1 where tm1: "earliest (timers ?s1) = Some tm1"
      "due tm1 = t + wait c" by blast
    have "fire_until (Suc k) c (Some t') s = fire_until k c (Some t') ?s1"
      using fire_now [OF tm(1), of "Some t'" k c] tm(2) True by simp
    also have "\<dots> = Some ?s1"
      using fire_later [OF tm1(1), of t'] tm1(2) assms(6) by simp
    finally show ?thesis using a1 assms(6) by auto
  qed
qed

lemma fire_armed_drain:
  assumes a: "armed s t th as log D" and p: "plain c" and w: "0 \<le> wait c"
    and "t \<le> D" and "D \<le> t + wait c"
  shows "\<exists>s'. fire_until (Suc (Suc k)) c None s = Some s' \<and> timers s' = []
            \<and> timerId s' = None
            \<and> invoked s' = log @ [(t + wait c, th, as)]"
proof -
  from armed_earliest [OF a] obtain tm where tm: "earliest (timers s) = Some tm"
    "due tm = D" "timers s = [tm]" by blast
  have step1: "fire_until (Suc (Suc k)) c None s
      = fire_until (Suc k) c None (step c s (Expire (handle tm) D))"
    using fire_now [OF tm(1), of None "Suc k" c] tm(2) by simp
  show ?thesis
  proof (cases "D = t + wait c")
    case True
    let ?s1 = "step c s (Expire (handle tm) (t + wait c))"
    from a True have a0: "armed s t th as log (t + wait c)" by simp
    from armed_settle [OF a0 p tm(3) w]
    have s1: "timers ?s1 = []" "timerId ?s1 = None"
      "invoked ?s1 = log @ [(t + wait c, th, as)]" by simp_all
    have "fire_until (Suc k) c None ?s1 = Some ?s1"
      using s1(1) by (simp add: fire_none)
    with step1 True s1 show ?thesis by simp
  next
    case False
    let ?s1 = "step c s (Expire (handle tm) D)"
    have lt: "D < t + wait c" using False assms(5) by simp
    have a1: "armed ?s1 t th as log (t + wait c)"
      by (rule armed_restart [OF a p tm(3) assms(4) lt])
    from armed_earliest [OF a1] obtain tm1 where tm1: "earliest (timers ?s1) = Some tm1"
      "due tm1 = t + wait c" "timers ?s1 = [tm1]" by blast
    let ?s2 = "step c ?s1 (Expire (handle tm1) (t + wait c))"
    from armed_settle [OF a1 p tm1(3) w]
    have s2: "timers ?s2 = []" "timerId ?s2 = None"
      "invoked ?s2 = log @ [(t + wait c, th, as)]" by simp_all
    have "fire_until (Suc k) c None ?s1 = fire_until k c None ?s2"
      using fire_now [OF tm1(1), of None k c] tm1(2) by simp
    also have "\<dots> = Some ?s2" using s2(1) by (simp add: fire_none)
    finally show ?thesis using step1 s2 by simp
  qed
qed

lemma run_armed:
  assumes p: "plain c" and w: "0 \<le> wait c"
  shows "armed s t th as log D \<Longrightarrow> t \<le> D \<Longrightarrow> D \<le> t + wait c \<Longrightarrow>
         burst (wait c) ((t, th, as) # calls) \<Longrightarrow>
         \<exists>s'. run (Suc (Suc k)) c s calls = Some s' \<and> timers s' = [] \<and> timerId s' = None
            \<and> invoked s' = log @ [(fst (last ((t, th, as) # calls)) + wait c,
                                     snd (last ((t, th, as) # calls)))]"
proof (induction calls arbitrary: s t th as D)
  case Nil
  from fire_armed_drain [OF Nil(1) p w Nil(2,3), of k] show ?case by simp
next
  case (Cons x calls)
  obtain t' th' as' where x: "x = (t', th', as')" by (cases x)
  from Cons.prems(4) x have le: "t \<le> t'" and gap: "t' - t < wait c"
    and b: "burst (wait c) ((t', th', as') # calls)" by simp_all
  from fire_armed_before [OF Cons.prems(1) p Cons.prems(2,3) le gap, of "Suc k"]
  obtain s1 D1 where s1: "fire_until (Suc (Suc k)) c (Some t') s = Some s1"
    "armed s1 t th as log D1" "t' < D1" "D1 \<le> t + wait c" by blast
  have a2: "armed (step c s1 (Call t' th' as')) t' th' as' log D1"
    by (rule armed_next [OF s1(2) p le gap])
  have "t' \<le> D1" "D1 \<le> t' + wait c" using s1(3,4) le by simp_all
  from Cons.IH [OF a2 this b] s1(1) x show ?case by simp
qed

section \<open>The claims\<close>

text \<open>
  C1: a controller never has two live timer handles; every reschedule cancels the handle
  it replaces. The source does not keep this. With timeouts, \<open>startTimer\<close> calls
  \<open>setTimeout\<close> and cancels nothing (only the animation-frame branch cancels
  \<open>timerId\<close> first), so the wrapper's \<open>maxing\<close> branch, which runs while a timer is
  scheduled, leaves the old handle live beside the new one; and \<open>flush()\<close> forgets
  \<open>timerId\<close> without cancelling it, so the next call schedules a second timer. Evaluated:
  after \<open>debounce(sum, 10, {maxWait: 15})\<close>, a call at time 0 and a call at time 10 that
  runs before the timeout's callback, handles 0 and 1 are both live; after
  \<open>debounce(sum, 10)\<close>, a call at 0, \<open>flush()\<close> at 1 and a call at 2, likewise.
\<close>

theorem duplicate_timers:
  "map handle (timers (steps ex_maxing initial [Call 0 None [1], Call 10 None [2]])) = [0, 1]
   \<and> timerId (steps ex_maxing initial [Call 0 None [1], Call 10 None [2]]) = Some 1
   \<and> map handle (timers (steps ex_plain initial [Call 0 None [1], Flush 1, Call 2 None [2]]))
       = [0, 1]
   \<and> timerId (steps ex_plain initial [Call 0 None [1], Flush 1, Call 2 None [2]]) = Some 1"
  by (simp add: eval_defs ex_plain_def ex_maxing_def)

text \<open>
  C2, as the source has it: at a wrapper call or timer expiry at time \<open>t\<close>,
  \<open>shouldInvoke t\<close> is true exactly when no call has been recorded (\<open>lastCallTime\<close>
  undefined), or the time since the last call is at least \<open>wait\<close>, or that time is
  negative, or \<open>maxWait\<close> is configured and the time since \<open>lastInvokeTime\<close> is at least
  \<open>maxWait\<close>. \<open>lastInvokeTime\<close> is the variable the source compares with; it is not in
  general the time of the last application of \<open>func\<close> (C4). The wrapper tests the state it
  finds, before it records the call; the timer's callback takes the trailing edge, which
  leaves no timer, exactly in these cases, and otherwise schedules a timer.
\<close>

theorem shouldInvoke_iff:
  "(shouldInvoke c s t \<longleftrightarrow>
      lastCallTime s = None
      \<or> (\<exists>lc. lastCallTime s = Some lc \<and> (t - lc \<ge> wait c \<or> t - lc < 0))
      \<or> (\<exists>m. maxing c \<and> maxWait c = Some m \<and> t - lastInvokeTime s \<ge> m))
   \<and> (timerId (timerExpired c s t) = None \<longleftrightarrow>
      lastCallTime s = None
      \<or> (\<exists>lc. lastCallTime s = Some lc \<and> (t - lc \<ge> wait c \<or> t - lc < 0))
      \<or> (\<exists>m. maxing c \<and> maxWait c = Some m \<and> t - lastInvokeTime s \<ge> m))"
proof -
  have cond: "shouldInvoke c s t \<longleftrightarrow>
      lastCallTime s = None
      \<or> (\<exists>lc. lastCallTime s = Some lc \<and> (t - lc \<ge> wait c \<or> t - lc < 0))
      \<or> (\<exists>m. maxing c \<and> maxWait c = Some m \<and> t - lastInvokeTime s \<ge> m)"
    by (cases "lastCallTime s"; cases "maxWait c") (auto simp: shouldInvoke_def Let_def)
  have "timerId (timerExpired c s t) = None \<longleftrightarrow> shouldInvoke c s t"
  proof (cases "shouldInvoke c s t")
    case True
    then show ?thesis
      by (cases "trailing c \<and> lastArgs s \<noteq> None")
         (auto simp: timerExpired_invoke trailingEdge_exec trailingEdge_skip)
  next
    case False
    then show ?thesis by (simp add: timerExpired_restart)
  qed
  with cond show ?thesis by simp
qed

text \<open>
  The claim as written, with the time since the last actual execution in the fourth
  case, fails: after \<open>debounce(sum, 10, {maxWait: 15})\<close>, a call at 0, the timer running
  \<open>sum\<close> at 10 and a call at 30 (a leading edge, which moves \<open>lastInvokeTime\<close> to 30 and
  applies nothing), the last execution is at 10, which at time 35 is 25 back, not less
  than \<open>maxWait\<close>; yet \<open>shouldInvoke 35\<close> is false, as the call at 30 is 5 back and
  \<open>lastInvokeTime\<close> is 5 back.
\<close>

theorem shouldInvoke_counterexample:
  "invoked (steps ex_maxing initial [Call 0 None [1], Expire 0 10, Call 30 None [2]])
     = [(10, None, [1])]
   \<and> lastExecution (steps ex_maxing initial [Call 0 None [1], Expire 0 10, Call 30 None [2]])
     = Some 10
   \<and> lastCallTime (steps ex_maxing initial [Call 0 None [1], Expire 0 10, Call 30 None [2]])
     = Some 30
   \<and> lastInvokeTime (steps ex_maxing initial [Call 0 None [1], Expire 0 10, Call 30 None [2]])
     = 30
   \<and> maxing ex_maxing \<and> maxWait ex_maxing = Some 15 \<and> (15 :: int) \<le> 35 - 10
   \<and> \<not> shouldInvoke ex_maxing
         (steps ex_maxing initial [Call 0 None [1], Expire 0 10, Call 30 None [2]]) 35"
  by (simp add: eval_defs ex_maxing_def lastExecution_def)

text \<open>
  C3: with the default options (\<open>leading\<close> false, \<open>trailing\<close> true, no \<open>maxWait\<close>), a
  burst of one or more calls, each less than \<open>wait\<close> after the one before, leads to
  exactly one application of \<open>func\<close>: to the \<open>this\<close> and arguments of the last call, at
  \<open>wait\<close> after the last call. The burst starts with no timer live, \<open>wait\<close> is not
  negative, timers are timeouts and the host runs them on time; the run then ends (any
  fuel from 2 on is enough) with no timer left.
\<close>

theorem burst_one_execution:
  assumes "\<not> leading c" and "trailing c" and "\<not> maxing c" and "\<not> useRAF c"
    and "0 \<le> wait c"
    and "timerId s = None" and "timers s = []"
    and "calls \<noteq> []" and "burst (wait c) calls" and "2 \<le> n"
  shows "\<exists>s'. run n c s calls = Some s'
           \<and> invoked s' = invoked s @ [(fst (last calls) + wait c, snd (last calls))]
           \<and> timers s' = [] \<and> \<not> pending s'"
proof -
  have p: "plain c" using assms(1-4) by (simp add: plain_def)
  from assms(10) obtain k where n: "n = Suc (Suc k)"
    by (metis Suc_le_D numeral_2_eq_2 Suc_le_mono)
  from assms(8) obtain t th as rest where calls: "calls = (t, th, as) # rest"
    by (cases calls) auto
  have f: "fire_until n c (Some t) s = Some s"
    using assms(7) by (simp add: fire_none)
  have a: "armed (step c s (Call t th as)) t th as (invoked s) (t + wait c)"
    by (rule armed_first [OF p assms(5,6,7)])
  from run_armed [OF p assms(5) a _ _ , of rest k] assms(5,9) calls
  obtain s' where "run (Suc (Suc k)) c (step c s (Call t th as)) rest = Some s'"
    "timers s' = []" "timerId s' = None"
    "invoked s' = invoked s @ [(fst (last calls) + wait c, snd (last calls))]"
    by auto
  with f n calls show ?thesis by (simp add: pending_def)
qed

theorem burst_one_execution_witness:
  "\<not> leading ex_plain \<and> trailing ex_plain \<and> \<not> maxing ex_plain \<and> \<not> useRAF ex_plain
   \<and> 0 \<le> wait ex_plain
   \<and> timerId (initial :: (unit, int, int) closure) = None
   \<and> timers (initial :: (unit, int, int) closure) = []
   \<and> burst (wait ex_plain) [(0, None :: unit option, [1 :: int]), (4, None, [2]), (9, None, [3])]
   \<and> (\<exists>s'. run 2 ex_plain initial [(0, None, [1]), (4, None, [2]), (9, None, [3])] = Some s'
          \<and> invoked s' = [(19, None, [3])] \<and> timers s' = [] \<and> \<not> pending s')"
proof -
  have c: "\<not> leading ex_plain" "trailing ex_plain" "\<not> maxing ex_plain" "\<not> useRAF ex_plain"
    "0 \<le> wait ex_plain"
    by (simp_all add: ex_plain_def)
  have s: "timerId (initial :: (unit, int, int) closure) = None"
    "timers (initial :: (unit, int, int) closure) = []"
    by (simp_all add: initial_def)
  have b: "burst (wait ex_plain) [(0, None :: unit option, [1 :: int]), (4, None, [2]), (9, None, [3])]"
    by (simp add: ex_plain_def)
  have w: "wait ex_plain = 10" "invoked (initial :: (unit, int, int) closure) = []"
    by (simp_all add: ex_plain_def initial_def)
  from burst_one_execution [OF c s _ b, of 2]
  obtain s' where "run 2 ex_plain initial [(0, None, [1]), (4, None, [2]), (9, None, [3])] = Some s'"
    "invoked s' = [(19, None, [3])]" "timers s' = []" "\<not> pending s'"
    by (auto simp: w)
  with c s b show ?thesis by blast
qed

text \<open>
  C4, as the source has it: \<open>lastInvokeTime\<close> is assigned in three places. An application
  of \<open>func\<close> sets it to the clock reading of that application; a leading edge (a wrapper
  call with \<open>shouldInvoke\<close> true and no timer scheduled) sets it to the time of the call,
  also when \<open>leading\<close> is off and nothing is applied; \<open>cancel()\<close> sets it to 0. Every other
  wrapper call, \<open>flush()\<close> and timer expiry leaves it as it was. So, \<open>cancel()\<close> apart, it
  does not go back on an event whose clock reading is not before it.
\<close>

theorem lastInvokeTime_step:
  "(e = Cancel \<longrightarrow> lastInvokeTime (step c s e) = 0)
   \<and> (\<forall>t. clock e = Some t \<longrightarrow>
          lastInvokeTime (step c s e)
            = (if invoked (step c s e) \<noteq> invoked s \<or> leading_edge c s e then t
               else lastInvokeTime s))
   \<and> (\<forall>t. clock e = Some t \<and> lastInvokeTime s \<le> t \<longrightarrow>
          lastInvokeTime s \<le> lastInvokeTime (step c s e))"
proof (intro conjI allI impI)
  assume "e = Cancel"
  then show "lastInvokeTime (step c s e) = 0" by (simp add: cancel_eq)
next
  fix t assume "clock e = Some t"
  then show "lastInvokeTime (step c s e)
            = (if invoked (step c s e) \<noteq> invoked s \<or> leading_edge c s e then t
               else lastInvokeTime s)"
    by (rule lit_step)
next
  fix t assume a: "clock e = Some t \<and> lastInvokeTime s \<le> t"
  then have "clock e = Some t" by simp
  from lit_step [OF this, of c s] a show "lastInvokeTime s \<le> lastInvokeTime (step c s e)"
    by (simp split: if_splits)
qed

theorem lastInvokeTime_step_witness:
  "lastInvokeTime (step ex_plain (step ex_plain initial (Call 5 None [1])) Cancel) = 0
   \<and> clock (Call 5 None [1] :: (unit, int) event) = Some 5
   \<and> lastInvokeTime (initial :: (unit, int, int) closure) \<le> 5
   \<and> leading_edge ex_plain initial (Call 5 None [1])
   \<and> lastInvokeTime (step ex_plain initial (Call 5 None [1])) = 5"
  using lastInvokeTime_step [where e = Cancel and c = ex_plain
          and s = "step ex_plain initial (Call 5 None [1])"]
    lastInvokeTime_step [where e = "Call 5 None [1]" and c = ex_plain and s = initial]
  by (simp add: eval_defs ex_plain_def)

text \<open>
  The claim as written fails: the first call of \<open>debounce(sum, 10)\<close> at time 5 applies
  nothing and moves \<open>lastInvokeTime\<close> from 0 to 5, and \<open>cancel()\<close> then moves it back to 0.
\<close>

theorem lastInvokeTime_counterexample:
  "invoked (step ex_plain initial (Call 5 None [1])) = invoked (initial :: (unit, int, int) closure)
   \<and> lastInvokeTime (initial :: (unit, int, int) closure) = 0
   \<and> lastInvokeTime (step ex_plain initial (Call 5 None [1])) = 5
   \<and> lastInvokeTime (steps ex_plain initial [Call 5 None [1], Cancel]) = 0"
  by (simp add: eval_defs ex_plain_def)

text \<open>
  C5: in every state, \<open>cancel()\<close> cancels the timer in \<open>timerId\<close>, clears \<open>timerId\<close>,
  \<open>lastArgs\<close>, \<open>lastThis\<close> and \<open>lastCallTime\<close>, leaves the cached \<open>result\<close> (and what has
  been applied) as it was, and \<open>pending()\<close> is false afterwards. Until the wrapper is
  called again nothing is applied and \<open>result\<close> stays, whatever timers expire and
  whatever \<open>flush()\<close> and \<open>cancel()\<close> calls follow.
\<close>

theorem cancel_spec:
  "timers (cancel c s) = filter (\<lambda>tm. Some (handle tm) \<noteq> timerId s) (timers s)
   \<and> timerId (cancel c s) = None
   \<and> lastArgs (cancel c s) = None \<and> lastThis (cancel c s) = None
   \<and> lastCallTime (cancel c s) = None
   \<and> result (cancel c s) = result s
   \<and> invoked (cancel c s) = invoked s
   \<and> \<not> pending (cancel c s)
   \<and> (\<forall>es. (\<forall>e\<in>set es. \<not> is_Call e) \<longrightarrow>
          invoked (steps c (cancel c s) es) = invoked s
          \<and> result (steps c (cancel c s) es) = result s)"
proof -
  have "\<forall>es. (\<forall>e\<in>set es. \<not> is_Call e) \<longrightarrow>
          invoked (steps c (cancel c s) es) = invoked s
          \<and> result (steps c (cancel c s) es) = result s"
  proof (intro allI impI)
    fix es :: "('a, 'b) event list"
    assume "\<forall>e\<in>set es. \<not> is_Call e"
    from quiet_steps [OF quiet_cancel this, where c = c and c1 = c and s1 = s]
    show "invoked (steps c (cancel c s) es) = invoked s
          \<and> result (steps c (cancel c s) es) = result s"
      by (simp add: cancel_eq)
  qed
  then show ?thesis by (simp add: cancel_eq pending_def)
qed

theorem cancel_spec_witness:
  "\<not> is_Call (Expire 0 10 :: (unit, int) event) \<and> \<not> is_Call (Flush 11 :: (unit, int) event)
   \<and> pending (step ex_plain initial (Call 0 None [1]))
   \<and> timers (cancel ex_plain (step ex_plain initial (Call 0 None [1]))) = []
   \<and> \<not> pending (cancel ex_plain (step ex_plain initial (Call 0 None [1])))
   \<and> invoked (steps ex_plain (cancel ex_plain (step ex_plain initial (Call 0 None [1])))
        [Expire 0 10, Flush 11]) = []"
  using cancel_spec [where c = ex_plain and s = "step ex_plain initial (Call 0 None [1])"]
  by (simp add: eval_defs ex_plain_def)

text \<open>
  C6, as the source has it: when a timer is scheduled, \<open>trailing\<close> is on and a call is
  recorded in \<open>lastArgs\<close>, \<open>flush()\<close> applies \<open>func\<close> at once to the recorded \<open>this\<close> and
  arguments and returns that result, which it caches. When a timer is scheduled but
  \<open>trailing\<close> is off or no call is recorded, \<open>flush()\<close> applies nothing, clears the
  recorded call and \<open>timerId\<close>, and returns the cached result. When no timer is
  scheduled, \<open>flush()\<close> returns the cached result and changes nothing.
\<close>

theorem flush_spec:
  "(\<forall>h as. timerId s = Some h \<and> trailing c \<and> lastArgs s = Some as \<longrightarrow>
       fst (flush c s t) = Some (func c (lastThis s) as)
       \<and> invoked (snd (flush c s t)) = invoked s @ [(t, lastThis s, as)]
       \<and> result (snd (flush c s t)) = Some (func c (lastThis s) as))
   \<and> (\<forall>h. timerId s = Some h \<and> (\<not> trailing c \<or> lastArgs s = None) \<longrightarrow>
       flush c s t = (result s, s\<lparr>timerId := None, lastArgs := None, lastThis := None\<rparr>))
   \<and> (timerId s = None \<longrightarrow> flush c s t = (result s, s))"
  by (auto simp: flush_idle flush_pending trailingEdge_exec trailingEdge_skip)

theorem flush_spec_witness:
  "timerId (step ex_plain initial (Call 0 None [1])) = Some 0 \<and> trailing ex_plain
   \<and> lastArgs (step ex_plain initial (Call 0 None [1])) = Some [1]
   \<and> fst (flush ex_plain (step ex_plain initial (Call 0 None [1])) 5) = Some 1
   \<and> invoked (snd (flush ex_plain (step ex_plain initial (Call 0 None [1])) 5)) = [(5, None, [1])]
   \<and> timerId (step ex_leading initial (Call 0 None [1])) = Some 0
   \<and> lastArgs (step ex_leading initial (Call 0 None [1])) = None
   \<and> fst (flush ex_leading (step ex_leading initial (Call 0 None [1])) 5) = Some 1
   \<and> timerId (initial :: (unit, int, int) closure) = None
   \<and> flush ex_plain initial 5 = (None, initial)"
  using flush_spec [where c = ex_plain and s = "step ex_plain initial (Call 0 None [1])" and t = 5]
    flush_spec [where c = ex_leading and s = "step ex_leading initial (Call 0 None [1])" and t = 5]
    flush_spec [where c = ex_plain and s = initial and t = 5]
  by (simp add: eval_defs ex_plain_def ex_leading_def)

text \<open>
  The claim as written fails: after \<open>debounce(sum, 10, {leading: true})\<close> and one call at
  time 0, \<open>sum\<close> has been applied at the leading edge and a timer is scheduled;
  \<open>flush()\<close> at time 5 applies nothing.
\<close>

theorem flush_counterexample:
  "pending (step ex_leading initial (Call 0 None [1]))
   \<and> invoked (step ex_leading initial (Call 0 None [1])) = [(0, None, [1])]
   \<and> invoked (snd (flush ex_leading (step ex_leading initial (Call 0 None [1])) 5))
       = [(0, None, [1])]"
  by (simp add: eval_defs ex_leading_def)




text \<open>
  C8, as the source has it: when the timer's callback runs at time \<open>t\<close>. If
  \<open>shouldInvoke t\<close>: \<open>func\<close> is applied to the recorded \<open>this\<close> and arguments and the
  result cached exactly when \<open>trailing\<close> is on and a call is recorded; the recorded call
  and \<open>timerId\<close> are cleared either way. If not: nothing is applied, the recorded call
  stays, and a new timer is scheduled, to which \<open>timerId\<close> now refers, for the remaining
  wait: the smaller of \<open>wait\<close> minus the time since the last call and \<open>maxWait\<close> minus the
  time since \<open>lastInvokeTime\<close> when \<open>maxWait\<close> is configured, and \<open>wait\<close> minus the time
  since the last call when it is not. \<open>lastInvokeTime\<close> is the variable the source
  subtracts; it is not in general the time of the last application of \<open>func\<close> (C4). (With
  animation frames the new callback is a frame request, which takes no delay.)
\<close>

theorem timerExpired_spec:
  "(shouldInvoke c s t \<longrightarrow>
      lastArgs (timerExpired c s t) = None \<and> lastThis (timerExpired c s t) = None
      \<and> timerId (timerExpired c s t) = None
      \<and> (\<forall>as. trailing c \<and> lastArgs s = Some as \<longrightarrow>
            invoked (timerExpired c s t) = invoked s @ [(t, lastThis s, as)]
            \<and> result (timerExpired c s t) = Some (func c (lastThis s) as))
      \<and> (\<not> trailing c \<or> lastArgs s = None \<longrightarrow>
            invoked (timerExpired c s t) = invoked s
            \<and> result (timerExpired c s t) = result s))
   \<and> (\<not> shouldInvoke c s t \<longrightarrow>
        (\<exists>lc. lastCallTime s = Some lc
           \<and> (\<forall>m. maxing c \<and> maxWait c = Some m \<longrightarrow>
                 remainingWait c s t
                   = Some (min (wait c - (t - lc)) (m - (t - lastInvokeTime s))))
           \<and> (\<not> maxing c \<longrightarrow> remainingWait c s t = Some (wait c - (t - lc))))
        \<and> timerId (timerExpired c s t) = Some (nextHandle s)
        \<and> timers (timerExpired c s t)
            = (if useRAF c then filter (\<lambda>tm. Some (handle tm) \<noteq> timerId s) (timers s)
               else timers s)
              @ [\<lparr>handle = nextHandle s, set_at = t,
                  kind = (if useRAF c then Frame else Timeout (remainingWait c s t))\<rparr>]
        \<and> invoked (timerExpired c s t) = invoked s
        \<and> lastArgs (timerExpired c s t) = lastArgs s
        \<and> lastThis (timerExpired c s t) = lastThis s)"
proof (intro conjI impI)
  assume inv: "shouldInvoke c s t"
  show "lastArgs (timerExpired c s t) = None"
    by (cases "trailing c \<and> lastArgs s \<noteq> None")
       (auto simp: timerExpired_invoke [OF inv] trailingEdge_exec trailingEdge_skip)
  show "lastThis (timerExpired c s t) = None"
    by (cases "trailing c \<and> lastArgs s \<noteq> None")
       (auto simp: timerExpired_invoke [OF inv] trailingEdge_exec trailingEdge_skip)
  show "timerId (timerExpired c s t) = None"
    by (cases "trailing c \<and> lastArgs s \<noteq> None")
       (auto simp: timerExpired_invoke [OF inv] trailingEdge_exec trailingEdge_skip)
  show "\<forall>as. trailing c \<and> lastArgs s = Some as \<longrightarrow>
            invoked (timerExpired c s t) = invoked s @ [(t, lastThis s, as)]
            \<and> result (timerExpired c s t) = Some (func c (lastThis s) as)"
    by (simp add: timerExpired_invoke [OF inv] trailingEdge_exec)
  { assume "\<not> trailing c \<or> lastArgs s = None"
    then show "invoked (timerExpired c s t) = invoked s"
      and "result (timerExpired c s t) = result s"
      by (simp_all add: timerExpired_invoke [OF inv] trailingEdge_skip) }
next
  assume ninv: "\<not> shouldInvoke c s t"
  from not_shouldInvoke_lastCall [OF ninv] obtain lc where lc: "lastCallTime s = Some lc" ..
  show "\<exists>lc. lastCallTime s = Some lc
           \<and> (\<forall>m. maxing c \<and> maxWait c = Some m \<longrightarrow>
                 remainingWait c s t
                   = Some (min (wait c - (t - lc)) (m - (t - lastInvokeTime s))))
           \<and> (\<not> maxing c \<longrightarrow> remainingWait c s t = Some (wait c - (t - lc)))"
    using lc by (simp add: remainingWait_maxing remainingWait_plain)
  show "timerId (timerExpired c s t) = Some (nextHandle s)"
    by (simp add: timerExpired_restart [OF ninv])
  show "timers (timerExpired c s t)
            = (if useRAF c then filter (\<lambda>tm. Some (handle tm) \<noteq> timerId s) (timers s)
               else timers s)
              @ [\<lparr>handle = nextHandle s, set_at = t,
                  kind = (if useRAF c then Frame else Timeout (remainingWait c s t))\<rparr>]"
    by (simp add: timerExpired_restart [OF ninv] unschedule_timers)
  show "invoked (timerExpired c s t) = invoked s"
    by (simp add: timerExpired_restart [OF ninv])
  show "lastArgs (timerExpired c s t) = lastArgs s"
    by (simp add: timerExpired_restart [OF ninv])
  show "lastThis (timerExpired c s t) = lastThis s"
    by (simp add: timerExpired_restart [OF ninv])
qed

theorem timerExpired_spec_witness:
  "shouldInvoke ex_plain (unschedule (Some 0) (step ex_plain initial (Call 0 None [1]))) 10
   \<and> trailing ex_plain
   \<and> lastArgs (unschedule (Some 0) (step ex_plain initial (Call 0 None [1]))) = Some [1]
   \<and> invoked (timerExpired ex_plain
        (unschedule (Some 0) (step ex_plain initial (Call 0 None [1]))) 10) = [(10, None, [1])]
   \<and> timerId (timerExpired ex_plain
        (unschedule (Some 0) (step ex_plain initial (Call 0 None [1]))) 10) = None
   \<and> \<not> shouldInvoke ex_maxing
        (unschedule (Some 1) (steps ex_maxing initial
           [Call 0 None [1], Expire 0 10, Call 30 None [2], Call 38 None [3]])) 40
   \<and> maxing ex_maxing \<and> maxWait ex_maxing = Some 15
   \<and> lastCallTime (unschedule (Some 1) (steps ex_maxing initial
           [Call 0 None [1], Expire 0 10, Call 30 None [2], Call 38 None [3]])) = Some 38
   \<and> lastInvokeTime (unschedule (Some 1) (steps ex_maxing initial
           [Call 0 None [1], Expire 0 10, Call 30 None [2], Call 38 None [3]])) = 30
   \<and> timers (timerExpired ex_maxing
        (unschedule (Some 1) (steps ex_maxing initial
           [Call 0 None [1], Expire 0 10, Call 30 None [2], Call 38 None [3]])) 40)
       = [\<lparr>handle = 2, set_at = 40, kind = Timeout (Some 5)\<rparr>]
   \<and> \<not> shouldInvoke ex_plain
        (unschedule (Some 0) (steps ex_plain initial [Call 0 None [1], Call 8 None [2]])) 10
   \<and> \<not> maxing ex_plain
   \<and> timers (timerExpired ex_plain
        (unschedule (Some 0) (steps ex_plain initial [Call 0 None [1], Call 8 None [2]])) 10)
       = [\<lparr>handle = 1, set_at = 10, kind = Timeout (Some 8)\<rparr>]"
  using timerExpired_spec [where c = ex_plain and t = 10
          and s = "unschedule (Some 0) (step ex_plain initial (Call 0 None [1]))"]
    timerExpired_spec [where c = ex_maxing and t = 40
          and s = "unschedule (Some 1) (steps ex_maxing initial
                     [Call 0 None [1], Expire 0 10, Call 30 None [2], Call 38 None [3]])"]
    timerExpired_spec [where c = ex_plain and t = 10
          and s = "unschedule (Some 0) (steps ex_plain initial [Call 0 None [1], Call 8 None [2]])"]
  by (simp add: eval_defs ex_plain_def ex_maxing_def)

text \<open>
  The claim as written, with \<open>maxWait\<close> minus the time since the last execution, fails:
  after \<open>debounce(sum, 10, {maxWait: 15})\<close>, a call at 0, the timer running \<open>sum\<close> at 10,
  a call at 30 (a leading edge: timer 1, \<open>lastInvokeTime\<close> 30, nothing applied) and a call
  at 38, timer 1 expires at 40 and \<open>shouldInvoke 40\<close> is false. The last execution is at
  10, so the claim's remaining wait is the smaller of \<open>10 - 2\<close> and \<open>15 - 30\<close>, which is
  \<open>-15\<close>; the source schedules the new timer for the smaller of \<open>10 - 2\<close> and \<open>15 - 10\<close>,
  which is 5.
\<close>

theorem timerExpired_counterexample:
  "lastExecution (steps ex_maxing initial
       [Call 0 None [1], Expire 0 10, Call 30 None [2], Call 38 None [3]]) = Some 10
   \<and> lastCallTime (steps ex_maxing initial
       [Call 0 None [1], Expire 0 10, Call 30 None [2], Call 38 None [3]]) = Some 38
   \<and> map handle (timers (steps ex_maxing initial
       [Call 0 None [1], Expire 0 10, Call 30 None [2], Call 38 None [3]])) = [1]
   \<and> \<not> shouldInvoke ex_maxing
        (unschedule (Some 1) (steps ex_maxing initial
           [Call 0 None [1], Expire 0 10, Call 30 None [2], Call 38 None [3]])) 40
   \<and> min (wait ex_maxing - (40 - 38)) (15 - (40 - 10)) = - 15
   \<and> timers (steps ex_maxing initial
       [Call 0 None [1], Expire 0 10, Call 30 None [2], Call 38 None [3], Expire 1 40])
       = [\<lparr>handle = 2, set_at = 40, kind = Timeout (Some 5)\<rparr>]"
  by (simp add: eval_defs ex_maxing_def lastExecution_def)

text \<open>
  C9: a wrapper call at time \<open>t\<close> with \<open>shouldInvoke t\<close> true, a timer scheduled and
  \<open>maxWait\<close> configured schedules a new timer for \<open>wait\<close> (a frame request with animation
  frames), to which \<open>timerId\<close> now refers, and applies \<open>func\<close> at once to the \<open>this\<close> and
  arguments of this call; the call returns that result, which is cached.
\<close>

theorem debounced_maxing_invokes:
  assumes "shouldInvoke c s t" and "timerId s = Some h" and "maxing c"
  shows "fst (debounced c s t this args) = Some (func c this args)
    \<and> result (snd (debounced c s t this args)) = Some (func c this args)
    \<and> invoked (snd (debounced c s t this args)) = invoked s @ [(t, this, args)]
    \<and> timerId (snd (debounced c s t this args)) = Some (nextHandle s)
    \<and> timers (snd (debounced c s t this args))
        = (if useRAF c then filter (\<lambda>tm. Some (handle tm) \<noteq> timerId s) (timers s)
           else timers s)
          @ [\<lparr>handle = nextHandle s, set_at = t,
              kind = (if useRAF c then Frame else Timeout (Some (wait c)))\<rparr>]"
  by (simp add: debounced_tight_loop [OF assms])

theorem debounced_maxing_invokes_witness:
  "shouldInvoke ex_maxing (step ex_maxing initial (Call 0 None [1])) 10
   \<and> timerId (step ex_maxing initial (Call 0 None [1])) = Some 0
   \<and> maxing ex_maxing
   \<and> fst (debounced ex_maxing (step ex_maxing initial (Call 0 None [1])) 10 None [2]) = Some 2
   \<and> invoked (snd (debounced ex_maxing (step ex_maxing initial (Call 0 None [1])) 10 None [2]))
       = [(10, None, [2])]
   \<and> timerId (snd (debounced ex_maxing (step ex_maxing initial (Call 0 None [1])) 10 None [2]))
       = Some 1"
  using debounced_maxing_invokes [where c = ex_maxing and t = 10 and h = 0 and this = None
          and args = "[2]" and s = "step ex_maxing initial (Call 0 None [1])"]
  by (simp add: eval_defs ex_maxing_def)

end
